theory Spec2Isabelle
  imports Complex_Main
begin

section \<open>Window store (engine/window_store.ts)\<close>

text \<open>
  The store keeps its windows in a JavaScript array \<open>list\<close>.  Every operation of
  \<open>WindowStoreImpl\<close> that changes the order works on that array with \<open>indexOf\<close>,
  \<open>splice\<close>, \<open>push\<close>, \<open>unshift\<close> and indexed assignment.  Windows are objects
  compared by reference; here a window is a value of the element type, and two
  elements are the same window exactly when they are equal.
\<close>

text \<open>\<open>Array.prototype.indexOf\<close>: the first index holding the element, \<open>-1\<close> if none.\<close>

fun indexOf :: "'a list \<Rightarrow> 'a \<Rightarrow> int" where
  "indexOf [] w = - 1"
| "indexOf (x # xs) w =
     (if x = w then 0
      else (let i = indexOf xs w in if i < 0 then - 1 else i + 1))"

text \<open>
  The start position of \<open>Array.prototype.splice\<close>: a negative start counts from the
  end, and every start is clamped to the bounds of the array.
\<close>

definition splice_start :: "int \<Rightarrow> 'a list \<Rightarrow> nat" where
  "splice_start i xs =
     (if i < 0 then nat (max (int (length xs) + i) 0) else min (nat i) (length xs))"

text \<open>\<open>list.splice(i, 1)\<close>: delete one element at the start position.\<close>

definition splice_delete1 :: "int \<Rightarrow> 'a list \<Rightarrow> 'a list" where
  "splice_delete1 i xs = (let s = splice_start i xs in take s xs @ drop (Suc s) xs)"

text \<open>\<open>list.splice(i, 0, w)\<close>: insert \<open>w\<close> at the start position.\<close>

definition splice_insert :: "int \<Rightarrow> 'a \<Rightarrow> 'a list \<Rightarrow> 'a list" where
  "splice_insert i w xs = (let s = splice_start i xs in take s xs @ w # drop s xs)"

text \<open>
  \<open>WindowStoreImpl.move\<close>.  Both indices are read before the source window is
  deleted; the optional parameter \<open>after\<close> is a boolean (absent means false).
\<close>

definition move :: "'a \<Rightarrow> 'a \<Rightarrow> bool \<Rightarrow> 'a list \<Rightarrow> 'a list" where
  "move srcWin destWin after xs =
     (let srcIdx = indexOf xs srcWin;
          destIdx = indexOf xs destWin
      in if srcIdx = - 1 \<or> destIdx = - 1 then xs
         else splice_insert (if after then destIdx + 1 else destIdx) srcWin
                (splice_delete1 srcIdx xs))"

text \<open>\<open>WindowStoreImpl.putWindowToMaster\<close>.\<close>

definition putWindowToMaster :: "'a \<Rightarrow> 'a list \<Rightarrow> 'a list" where
  "putWindowToMaster w xs =
     (let idx = indexOf xs w
      in if idx = - 1 then xs else splice_insert 0 w (splice_delete1 idx xs))"

text \<open>\<open>WindowStoreImpl.swap\<close>: two indexed assignments, one after the other.\<close>

definition swap :: "'a \<Rightarrow> 'a \<Rightarrow> 'a list \<Rightarrow> 'a list" where
  "swap alpha beta xs =
     (let alphaIndex = indexOf xs alpha;
          betaIndex = indexOf xs beta
      in if alphaIndex < 0 \<or> betaIndex < 0 then xs
         else (xs[nat alphaIndex := beta])[nat betaIndex := alpha])"

text \<open>\<open>WindowStoreImpl.push\<close>, \<open>unshift\<close> and \<open>remove\<close>.\<close>

definition push :: "'a \<Rightarrow> 'a list \<Rightarrow> 'a list" where
  "push w xs = xs @ [w]"

definition unshift :: "'a \<Rightarrow> 'a list \<Rightarrow> 'a list" where
  "unshift w xs = w # xs"

definition remove :: "'a \<Rightarrow> 'a list \<Rightarrow> 'a list" where
  "remove w xs =
     (let idx = indexOf xs w in if idx \<ge> 0 then splice_delete1 idx xs else xs)"

subsection \<open>Sequences of store operations\<close>

datatype 'a store_op =
    Push 'a
  | Remove 'a
  | Move 'a 'a bool
  | Swap 'a 'a

fun apply_store_op :: "'a store_op \<Rightarrow> 'a list \<Rightarrow> 'a list" where
  "apply_store_op (Push w) xs = push w xs"
| "apply_store_op (Remove w) xs = remove w xs"
| "apply_store_op (Move a b after) xs = move a b after xs"
| "apply_store_op (Swap a b) xs = swap a b xs"

text \<open>The operations are applied from left to right, starting from the given list.\<close>

fun run_store_ops :: "'a store_op list \<Rightarrow> 'a list \<Rightarrow> 'a list" where
  "run_store_ops [] xs = xs"
| "run_store_ops (opn # ops) xs = run_store_ops ops (apply_store_op opn xs)"

text \<open>
  The windows that were pushed and not removed afterwards, read off the sequence
  of operations alone (starting from the windows \<open>S\<close>).
\<close>

fun pushed_not_removed :: "'a store_op list \<Rightarrow> 'a set \<Rightarrow> 'a set" where
  "pushed_not_removed [] S = S"
| "pushed_not_removed (Push w # ops) S = pushed_not_removed ops (insert w S)"
| "pushed_not_removed (Remove w # ops) S = pushed_not_removed ops (S - {w})"
| "pushed_not_removed (_ # ops) S = pushed_not_removed ops S"

text \<open>
  A sequence pushes only fresh windows when no \<open>Push\<close> names a window that the
  store holds at that moment.
\<close>

fun pushes_fresh :: "'a store_op list \<Rightarrow> 'a list \<Rightarrow> bool" where
  "pushes_fresh [] xs = True"
| "pushes_fresh (Push w # ops) xs =
     (w \<notin> set xs \<and> pushes_fresh ops (apply_store_op (Push w) xs))"
| "pushes_fresh (opn # ops) xs = pushes_fresh ops (apply_store_op opn xs)"

text \<open>An array read \<open>xs[i]\<close>: \<open>undefined\<close> outside the bounds of the array.\<close>

definition at_index :: "'a list \<Rightarrow> int \<Rightarrow> 'a option" where
  "at_index xs i = (if 0 \<le> i \<and> i < int (length xs) then Some (xs ! nat i) else None)"

section \<open>Geometry\<close>

text \<open>
  Rectangles hold pixel coordinates.  The host reports integers and every
  computation below stays within the integers.
\<close>

record rect =
  rect_x :: int
  rect_y :: int
  rect_width :: int
  rect_height :: int

text \<open>
  Modelled from the spec: the derived edges of \<open>Rect\<close> (util/rect.ts is not among
  the sources): \<open>maxX = x + width\<close> and \<open>maxY = y + height\<close>.
\<close>

definition maxX :: "rect \<Rightarrow> int" where
  "maxX r = rect_x r + rect_width r"

definition maxY :: "rect \<Rightarrow> int" where
  "maxY r = rect_y r + rect_height r"

text \<open>
  Modelled from the spec: \<open>Rect.gap(left, right, top, bottom)\<close> (util/rect.ts is
  not among the sources) shrinks the rectangle by the four insets.
\<close>

definition gap :: "rect \<Rightarrow> int \<Rightarrow> int \<Rightarrow> int \<Rightarrow> int \<Rightarrow> rect" where
  "gap r gl gr gt gb =
     \<lparr>rect_x = rect_x r + gl, rect_y = rect_y r + gt,
      rect_width = rect_width r - (gl + gr),
      rect_height = rect_height r - (gt + gb)\<rparr>"

text \<open>
  Modelled from the spec: \<open>overlap(min1, max1, min2, max2)\<close> (util/func.ts is not
  among the sources): the two intervals share a stretch of positive length.
\<close>

definition overlap :: "int \<Rightarrow> int \<Rightarrow> int \<Rightarrow> int \<Rightarrow> bool" where
  "overlap min1 max1 min2 max2 = (max 0 (min max1 max2 - max min1 min2) > 0)"

section \<open>Windows and surfaces\<close>

text \<open>
  Modelled from the spec: the window states (the enumeration lives in
  engine/window.ts, which is not among the sources).
\<close>

datatype WindowState = Unmanaged | Undecided | Tiled | Floating | Maximized

text \<open>
  A surface as the engine reads it: its derived id, the triple that identifies
  it, the groups it displays and its working area.
\<close>

record surface =
  s_id :: string
  s_screen :: int
  s_activity :: string
  s_desktop :: int
  s_groups :: "string list"
  s_workingArea :: rect

text \<open>
  One managed window: the fields of the engine window the engine writes
  (\<open>state\<close>, \<open>geometry\<close>), its last-focused \<open>timestamp\<close>, the two policy flags,
  the private fields \<open>_group\<close>, \<open>_screen\<close> and \<open>_desktop\<close> of the driver window
  (driver/window.ts) and the fields of the host client that the driver reads.
\<close>

record window =
  w_state :: WindowState
  w_geometry :: rect
  w_timestamp :: int
  w_shouldIgnore :: bool
  w_shouldFloat :: bool
  w_group :: "string option"
  w_screen :: int
  w_desktop :: int
  client_minimized :: bool
  client_desktop :: int
  client_activities :: "string list"

text \<open>\<open>DriverWindowImpl.on\<close>, \<open>visibleOn\<close> and \<open>visible\<close> (driver/window.ts).\<close>

definition window_on :: "window \<Rightarrow> surface \<Rightarrow> bool" where
  "window_on w surf =
     ((case w_group w of None \<Rightarrow> False | Some g \<Rightarrow> g \<in> set (s_groups surf)) \<or>
      ((client_desktop w = s_desktop surf \<or> client_desktop w = - 1) \<and>
       (length (client_activities w) = 0 \<or> s_activity surf \<in> set (client_activities w)) \<and>
       w_screen w = s_screen surf))"

definition visibleOn :: "window \<Rightarrow> surface \<Rightarrow> bool" where
  "visibleOn w surf = (\<not> client_minimized w \<and> window_on w surf)"

definition visible :: "window \<Rightarrow> surface list \<Rightarrow> bool" where
  "visible w surfs = list_ex (\<lambda>surf. visibleOn w surf) surfs"

text \<open>
  Modelled from the spec: the members \<open>minimized\<close>, \<open>shouldIgnore\<close>,
  \<open>shouldFloat\<close>, \<open>visibleOn\<close> and \<open>visible\<close> of the engine window
  (engine/window.ts is not among the sources) pass through to the driver window,
  so the engine-level reads below use the driver-level fields and functions
  directly.
\<close>

text \<open>
  What the engine takes from collaborators whose code is not among the sources:
  the getters \<open>tileable\<close> and \<open>tiled\<close> and the method \<open>commit\<close> of the engine
  window (engine/window.ts), the host's current activity, the surfaces that
  \<open>controller.screens()\<close> returns, the controller's current surface, and what
  the surface class derives from the host for a screen, activity and desktop
  (driver/surface.ts).  They are parameters of the model.
\<close>

record env =
  tileable :: "window \<Rightarrow> bool"
  tiled :: "window \<Rightarrow> bool"
  commit :: "window \<Rightarrow> window"
  currentActivity :: string
  screens :: "surface list"
  currentSurface :: surface
  surfaceId :: "int \<Rightarrow> string \<Rightarrow> int \<Rightarrow> string"
  surfaceGroups :: "int \<Rightarrow> string \<Rightarrow> int \<Rightarrow> string list"
  surfaceWorkingArea :: "int \<Rightarrow> string \<Rightarrow> int \<Rightarrow> rect"

text \<open>
  Modelled from the spec: the constructor of \<open>DriverSurfaceImpl\<close>
  (driver/surface.ts is not among the sources).  A surface is the triple of
  screen, activity and desktop it is built from; its id, groups and working area
  are derived from the host.
\<close>

definition DriverSurfaceImpl :: "env \<Rightarrow> int \<Rightarrow> string \<Rightarrow> int \<Rightarrow> surface" where
  "DriverSurfaceImpl e scr act desk =
     \<lparr>s_id = surfaceId e scr act desk, s_screen = scr, s_activity = act, s_desktop = desk,
      s_groups = surfaceGroups e scr act desk,
      s_workingArea = surfaceWorkingArea e scr act desk\<rparr>"

text \<open>The getter and the setter \<open>surface\<close> of \<open>DriverWindowImpl\<close> (driver/window.ts).\<close>

definition driver_surface :: "env \<Rightarrow> window \<Rightarrow> surface" where
  "driver_surface e w =
     (let activity =
        (if length (client_activities w) = 0 then currentActivity e
         else if currentActivity e \<in> set (client_activities w) then currentActivity e
         else hd (client_activities w))
      in DriverSurfaceImpl e (w_screen w) activity (w_desktop w))"

definition set_driver_surface :: "surface option \<Rightarrow> window \<Rightarrow> window" where
  "set_driver_surface surf w =
     (case surf of
        None \<Rightarrow> w
      | Some s \<Rightarrow> w\<lparr>w_screen := s_screen s, w_desktop := s_desktop s\<rparr>)"


definition set_engine_surface :: "surface option \<Rightarrow> window \<Rightarrow> window" where
  "set_engine_surface surf w = set_driver_surface surf w"

section \<open>Engine state\<close>

type_synonym wid = nat

text \<open>
  Modelled from the spec: a layout (engine/layout is not among the sources) is
  a strategy object with an optional \<open>numMasterTiles\<close>; \<open>apply\<close> assigns
  rectangles (and states) to the tileable windows it is given.  The engine also
  asks whether the layout is the monocle layout.
\<close>

record layout =
  numMasterTiles :: "int option"
  isMonocle :: bool
  layout_apply :: "wid list \<Rightarrow> rect \<Rightarrow> (wid \<Rightarrow> window) \<Rightarrow> (wid \<Rightarrow> window)"

record config =
  maximizeSoleTile :: bool
  limitTileWidthRatio :: rat
  monocleMaximize :: bool
  screenGapLeft :: int
  screenGapRight :: int
  screenGapTop :: int
  screenGapBottom :: int
  newWindowSpawnLocation :: string
  moveBetweenSurfaces :: bool

text \<open>
  The steps of the engine that the outside can observe, in the order they
  happen: a window leaves the state \<open>Undecided\<close>, the sole tile is maximized, the
  layout of a surface is applied, a tile is narrowed to the width limit, a
  window is committed to the host, the notification "Moved to screen n" is
  shown, the window list is written to the persistent store.
\<close>

datatype event =
    Classified wid
  | SoleMaximized wid
  | LayoutApplied string
  | Clamped wid
  | Committed wid
  | Notified int
  | ListSaved

text \<open>
  The engine: the array of the window store, the window objects it refers to
  (by window number), the layout store (modelled from the spec as a map from
  surface id to the active layout of that surface), the controller's current
  window, the persisted window list and the history of observable steps.
\<close>

record engine =
  windows :: "wid list"
  heap :: "wid \<Rightarrow> window"
  layouts :: "string \<Rightarrow> layout"
  currentWindow :: "wid option"
  savedList :: "wid list"
  history :: "event list"

subsection \<open>Filtered views of the store (engine/window_store.ts)\<close>

definition visibleWindowsOn :: "surface \<Rightarrow> engine \<Rightarrow> wid list" where
  "visibleWindowsOn surf st = filter (\<lambda>i. visibleOn (heap st i) surf) (windows st)"

definition visibleTiledWindowsOn :: "env \<Rightarrow> surface \<Rightarrow> engine \<Rightarrow> wid list" where
  "visibleTiledWindowsOn e surf st =
     filter (\<lambda>i. tiled e (heap st i) \<and> visibleOn (heap st i) surf) (windows st)"

definition visibleTiledWindows :: "env \<Rightarrow> surface list \<Rightarrow> engine \<Rightarrow> wid list" where
  "visibleTiledWindows e surfs st =
     filter (\<lambda>i. tiled e (heap st i) \<and> visible (heap st i) surfs) (windows st)"

definition visibleTileableWindowsOn :: "env \<Rightarrow> surface \<Rightarrow> engine \<Rightarrow> wid list" where
  "visibleTileableWindowsOn e surf st =
     filter (\<lambda>i. tileable e (heap st i) \<and> visibleOn (heap st i) surf) (windows st)"


definition tiledWindowsIn :: "env \<Rightarrow> string option \<Rightarrow> engine \<Rightarrow> wid list" where
  "tiledWindowsIn e grp st =
     filter (\<lambda>i. (tileable e (heap st i) \<or> client_minimized (heap st i)) \<and>
                 w_group (heap st i) = grp)
       (windows st)"

definition allWindowsOn :: "surface \<Rightarrow> engine \<Rightarrow> wid list" where
  "allWindowsOn surf st = filter (\<lambda>i. window_on (heap st i) surf) (windows st)"

text \<open>\<open>WindowStoreImpl.isInMasterStack\<close>; the stack size is a JavaScript number.\<close>

definition isInMasterStack :: "env \<Rightarrow> engine \<Rightarrow> wid \<Rightarrow> int \<Rightarrow> bool" where
  "isInMasterStack e st w stackSize =
     (let windowStack =
            filter (\<lambda>i. \<not> client_minimized (heap st i) \<or> i = w)
              (tiledWindowsIn e (w_group (heap st w)) st);
          foundIndex = indexOf windowStack w
      in 0 \<le> foundIndex \<and> foundIndex < stackSize)"

section \<open>Arrangement (engine)\<close>

definition record_event :: "event \<Rightarrow> engine \<Rightarrow> engine" where
  "record_event ev st = st\<lparr>history := history st @ [ev]\<rparr>"

definition update_window :: "wid \<Rightarrow> (window \<Rightarrow> window) \<Rightarrow> engine \<Rightarrow> engine" where
  "update_window i f st = st\<lparr>heap := (heap st)(i := f (heap st i))\<rparr>"

text \<open>
  Modelled from the spec: \<open>LayoutStore.getCurrentLayout\<close> (engine/layout_store.ts
  is not among the sources) returns the active layout kept for the id of the
  surface.
\<close>

definition getCurrentLayout :: "engine \<Rightarrow> surface \<Rightarrow> layout" where
  "getCurrentLayout st surf = layouts st (s_id surf)"

text \<open>
  The loop "set correct window state for new windows", which \<open>arrangeScreen\<close>
  and \<open>manage\<close> both run over the windows visible on a surface.  The list of
  visible windows is computed before the loop starts.
\<close>

definition classify_window :: "wid \<Rightarrow> engine \<Rightarrow> engine" where
  "classify_window i st =
     (if w_state (heap st i) = Undecided
      then record_event (Classified i)
             (update_window i
                (\<lambda>w. w\<lparr>w_state := (if w_shouldFloat w then Floating else Tiled)\<rparr>) st)
      else st)"

definition classify :: "surface \<Rightarrow> engine \<Rightarrow> engine" where
  "classify surf st = fold classify_window (visibleWindowsOn surf st) st"

text \<open>\<open>EngineImpl.getTilingArea\<close>.\<close>

definition getTilingArea :: "config \<Rightarrow> rect \<Rightarrow> layout \<Rightarrow> rect" where
  "getTilingArea cfg workingArea lay =
     (if monocleMaximize cfg \<and> isMonocle lay then workingArea
      else gap workingArea (screenGapLeft cfg) (screenGapRight cfg)
             (screenGapTop cfg) (screenGapBottom cfg))"

text \<open>
  The body of the width limit: the tile keeps its vertical extent, gets the
  width \<open>maxWidth\<close> and is centred where it was.  \<open>Math.floor\<close> of half an
  integer is integer division.
\<close>

definition limit_width :: "int \<Rightarrow> rect \<Rightarrow> rect" where
  "limit_width maxWidth g =
     \<lparr>rect_x = rect_x g + (rect_width g - maxWidth) div 2, rect_y = rect_y g,
      rect_width = maxWidth, rect_height = rect_height g\<rparr>"

definition clamp_window :: "int \<Rightarrow> wid \<Rightarrow> engine \<Rightarrow> engine" where
  "clamp_window maxWidth i st =
     record_event (Clamped i)
       (update_window i (\<lambda>w. w\<lparr>w_geometry := limit_width maxWidth (w_geometry w)\<rparr>) st)"

text \<open>
  The three stages of \<open>EngineImpl.arrangeScreen\<close> after the classification:
  maximizing the sole tile or applying the layout, and the width limit.  The
  ratio is a fraction; \<open>Math.floor\<close> is taken of the exact product.
\<close>

definition apply_layout :: "config \<Rightarrow> surface \<Rightarrow> layout \<Rightarrow> wid list \<Rightarrow> engine \<Rightarrow> engine" where
  "apply_layout cfg surf lay tileableWindows st =
     (if maximizeSoleTile cfg \<and> length tileableWindows = 1
      then record_event (SoleMaximized (hd tileableWindows))
             (update_window (hd tileableWindows)
                (\<lambda>w. w\<lparr>w_state := Maximized, w_geometry := s_workingArea surf\<rparr>) st)
      else if length tileableWindows > 0
      then record_event (LayoutApplied (s_id surf))
             (st\<lparr>heap := layout_apply lay tileableWindows
                             (getTilingArea cfg (s_workingArea surf) lay) (heap st)\<rparr>)
      else st)"

definition maxTileWidth :: "config \<Rightarrow> rect \<Rightarrow> int" where
  "maxTileWidth cfg workingArea =
     \<lfloor>of_int (rect_height workingArea) * limitTileWidthRatio cfg\<rfloor>"

definition limit_tiles :: "env \<Rightarrow> config \<Rightarrow> surface \<Rightarrow> layout \<Rightarrow> wid list \<Rightarrow> engine \<Rightarrow> engine" where
  "limit_tiles e cfg surf lay tileableWindows st =
     (if limitTileWidthRatio cfg > 0 \<and> \<not> isMonocle lay
      then (let maxWidth = maxTileWidth cfg (s_workingArea surf)
            in fold (clamp_window maxWidth)
                 (filter (\<lambda>i. tiled e (heap st i) \<and>
                               rect_width (w_geometry (heap st i)) > maxWidth)
                    tileableWindows)
                 st)
      else st)"

definition arrangeScreen :: "env \<Rightarrow> config \<Rightarrow> surface \<Rightarrow> engine \<Rightarrow> engine" where
  "arrangeScreen e cfg surf st =
     (let lay = getCurrentLayout st surf;
          st1 = classify surf st;
          tileableWindows = visibleTileableWindowsOn e surf st1;
          st2 = apply_layout cfg surf lay tileableWindows st1
      in limit_tiles e cfg surf lay tileableWindows st2)"

text \<open>\<open>EngineImpl.commitArrangement\<close>: every window on the surface is committed.\<close>

definition commit_window :: "env \<Rightarrow> surface \<Rightarrow> wid \<Rightarrow> engine \<Rightarrow> engine" where
  "commit_window e surf i st =
     record_event (Committed i)
       (update_window i (\<lambda>w. commit e (set_engine_surface (Some surf) w)) st)"

definition commitArrangement :: "env \<Rightarrow> surface \<Rightarrow> engine \<Rightarrow> engine" where
  "commitArrangement e surf st = fold (commit_window e surf) (allWindowsOn surf st) st"

text \<open>
  \<open>EngineImpl.arrange(screen?)\<close>: the argument is a surface, \<open>null\<close>, or absent.
\<close>

datatype arrange_arg = GivenSurface surface | NullSurface | NoArgument

definition arrange :: "env \<Rightarrow> config \<Rightarrow> arrange_arg \<Rightarrow> engine \<Rightarrow> engine" where
  "arrange e cfg arg st =
     (case arg of
        NullSurface \<Rightarrow> st
      | GivenSurface surf \<Rightarrow> commitArrangement e surf (arrangeScreen e cfg surf st)
      | NoArgument \<Rightarrow>
          fold (\<lambda>surf s. commitArrangement e surf (arrangeScreen e cfg surf s)) (screens e) st)"


section \<open>Window lifecycle (engine, controller)\<close>

text \<open>\<open>EngineImpl.saveWindows\<close> writes the ids of the stored windows, in order.\<close>

definition saveWindows :: "engine \<Rightarrow> engine" where
  "saveWindows st = record_event ListSaved (st\<lparr>savedList := windows st\<rparr>)"

text \<open>The insertion at the head of \<open>EngineImpl.manage\<close>, on the array of the store.\<close>

definition spawn :: "config \<Rightarrow> wid option \<Rightarrow> wid \<Rightarrow> wid list \<Rightarrow> wid list" where
  "spawn cfg cur w xs =
     (if newWindowSpawnLocation cfg = ''master'' then unshift w xs
      else (case cur of
              None \<Rightarrow> push w xs
            | Some c \<Rightarrow>
                if newWindowSpawnLocation cfg = ''beforeFocused''
                then move w c False (push w xs)
                else if newWindowSpawnLocation cfg = ''afterFocused''
                then move w c True (push w xs)
                else push w xs))"

text \<open>
  \<open>manage\<close> up to the point where it asks whether the window is in the master
  stack: state \<open>Undecided\<close>, insertion, saving, and (for a window with a
  surface) the classification of the visible windows of that surface.
\<close>

definition manage_insert :: "config \<Rightarrow> wid \<Rightarrow> engine \<Rightarrow> engine" where
  "manage_insert cfg w st =
     (let st1 = update_window w (\<lambda>x. x\<lparr>w_state := Undecided\<rparr>) st
      in saveWindows (st1\<lparr>windows := spawn cfg (currentWindow st1) w (windows st1)\<rparr>))"






section \<open>Directional neighbour search (engine)\<close>

datatype Direction = Up | Down | Left | Right

text \<open>
  The running value of \<open>getClosestRelativWindowCorner\<close> is a coordinate or the
  JavaScript number \<open>Infinity\<close>, with which the reduction starts for the
  directions down and right.
\<close>

datatype corner = Finite int | Infinity

fun corner_min :: "int \<Rightarrow> corner \<Rightarrow> corner" where
  "corner_min v Infinity = Finite v"
| "corner_min v (Finite p) = Finite (min v p)"

fun corner_max :: "int \<Rightarrow> corner \<Rightarrow> corner" where
  "corner_max v Infinity = Infinity"
| "corner_max v (Finite p) = Finite (max v p)"

text \<open>\<open>v > closestPoint - 5\<close> and \<open>v < closestPoint + 5\<close>.\<close>

fun above_corner_minus5 :: "int \<Rightarrow> corner \<Rightarrow> bool" where
  "above_corner_minus5 v Infinity = False"
| "above_corner_minus5 v (Finite p) = (v > p - 5)"

fun below_corner_plus5 :: "int \<Rightarrow> corner \<Rightarrow> bool" where
  "below_corner_plus5 v Infinity = True"
| "below_corner_plus5 v (Finite p) = (v < p + 5)"

text \<open>
  \<open>EngineImpl.getNeighborCandidates\<close>.  Without a surface the search runs over
  the tiled windows visible on any of the controller's surfaces.
\<close>

definition getNeighborCandidates ::
  "env \<Rightarrow> engine \<Rightarrow> rect \<Rightarrow> Direction \<Rightarrow> surface option \<Rightarrow> wid list" where
  "getNeighborCandidates e st basis dir surf =
     (let visibleWindowsOnCurrentSurface =
            (case surf of
               Some s \<Rightarrow> visibleTiledWindowsOn e s st
             | None \<Rightarrow> visibleTiledWindows e (screens e) st);
          sign = (if dir = Down \<or> dir = Right then 1 else - 1 :: int)
      in if dir = Up \<or> dir = Down
         then filter
                (\<lambda>i. rect_y (w_geometry (heap st i)) * sign > rect_y basis * sign \<and>
                      overlap (rect_x basis) (maxX basis)
                        (rect_x (w_geometry (heap st i))) (maxX (w_geometry (heap st i))))
                visibleWindowsOnCurrentSurface
         else filter
                (\<lambda>i. rect_x (w_geometry (heap st i)) * sign > rect_x basis * sign \<and>
                      overlap (rect_y basis) (maxY basis)
                        (rect_y (w_geometry (heap st i))) (maxY (w_geometry (heap st i))))
                visibleWindowsOnCurrentSurface)"

text \<open>\<open>EngineImpl.getClosestRelativWindowCorner\<close>: a reduction from the left.\<close>

definition getClosestRelativWindowCorner :: "rect list \<Rightarrow> Direction \<Rightarrow> corner" where
  "getClosestRelativWindowCorner geometries dir =
     fold (\<lambda>geometry prevValue.
             case dir of
               Up \<Rightarrow> corner_max (maxY geometry) prevValue
             | Down \<Rightarrow> corner_min (rect_y geometry) prevValue
             | Left \<Rightarrow> corner_max (maxX geometry) prevValue
             | Right \<Rightarrow> corner_min (rect_x geometry) prevValue)
       geometries
       (if dir = Up \<or> dir = Left then Finite 0 else Infinity)"

text \<open>\<open>EngineImpl.getClosestRelativeWindow\<close>.\<close>

definition getClosestRelativeWindow ::
  "engine \<Rightarrow> wid list \<Rightarrow> Direction \<Rightarrow> corner \<Rightarrow> wid list" where
  "getClosestRelativeWindow st windowArray dir closestPoint =
     filter (\<lambda>i. case dir of
                   Up \<Rightarrow> above_corner_minus5 (maxY (w_geometry (heap st i))) closestPoint
                 | Down \<Rightarrow> below_corner_plus5 (rect_y (w_geometry (heap st i))) closestPoint
                 | Left \<Rightarrow> above_corner_minus5 (maxX (w_geometry (heap st i))) closestPoint
                 | Right \<Rightarrow> below_corner_plus5 (rect_x (w_geometry (heap st i))) closestPoint)
       windowArray"

text \<open>
  \<open>sort((a, b) => b.timestamp - a.timestamp)\<close>: descending by timestamp.  The
  model sorts stably, so that of several windows with the greatest timestamp
  the first in store order comes first.
\<close>

definition sort_recent :: "engine \<Rightarrow> wid list \<Rightarrow> wid list" where
  "sort_recent st ws = sort_key (\<lambda>i. - w_timestamp (heap st i)) ws"

text \<open>
  \<open>EngineImpl.getNeighborByDirection\<close>.  The result is a window, or nothing:
  \<open>null\<close> when there is no candidate, \<open>undefined\<close> when the sorted array is
  empty.
\<close>

definition getNeighborByDirection ::
  "env \<Rightarrow> engine \<Rightarrow> rect \<Rightarrow> Direction \<Rightarrow> surface option \<Rightarrow> wid option" where
  "getNeighborByDirection e st basis dir surf =
     (let neighborCandidates = getNeighborCandidates e st basis dir surf
      in if length neighborCandidates = 0 then None
         else (let closestWindowCorner =
                     getClosestRelativWindowCorner
                       (map (\<lambda>i. w_geometry (heap st i)) neighborCandidates) dir;
                   closestWindows =
                     getClosestRelativeWindow st neighborCandidates dir closestWindowCorner
               in case sort_recent st closestWindows of
                    [] \<Rightarrow> None
                  | i # _ \<Rightarrow> Some i))"

text \<open>\<open>EngineImpl.focusDir\<close>.\<close>

definition focusDir :: "env \<Rightarrow> config \<Rightarrow> Direction \<Rightarrow> engine \<Rightarrow> engine" where
  "focusDir e cfg dir st =
     (case currentWindow st of
        None \<Rightarrow>
          (let tiles = visibleWindowsOn (currentSurface e) st
           in if length tiles > 0 then st\<lparr>currentWindow := Some (hd tiles)\<rparr> else st)
      | Some window \<Rightarrow>
          (let neighbor =
                 (if moveBetweenSurfaces cfg
                  then getNeighborByDirection e st (w_geometry (heap st window)) dir None
                  else getNeighborByDirection e st (w_geometry (heap st window)) dir
                         (Some (currentSurface e)))
           in case neighbor of
                Some n \<Rightarrow> st\<lparr>currentWindow := Some n\<rparr>
              | None \<Rightarrow> st))"

subsection \<open>The search as the specification words it\<close>







section \<open>Re-entrancy guard of the driver (driver/index.ts)\<close>

text \<open>
  The driver keeps the flag \<open>entered\<close> and a log; \<open>app\<close> stands for everything
  else a handler can change.  A handler returns normally or throws an exception
  with a name and a message; what it changed before throwing stays changed.
\<close>

datatype outcome = Returned | Threw string string

datatype log_line = HandlerFailed string string

record 's driver =
  entered :: bool
  driver_log :: "log_line list"
  app :: 's

type_synonym 's callback = "'s driver \<Rightarrow> outcome \<times> 's driver"

text \<open>
  \<open>DriverImpl.enter\<close>.  \<open>finish\<close> is what follows the callback: the \<open>catch\<close>
  block writes a log line for an exception, and the \<open>finally\<close> block clears
  the flag.
\<close>

definition finish :: "outcome \<times> 's driver \<Rightarrow> 's driver" where
  "finish r =
     (case r of
        (Returned, d') \<Rightarrow> d'\<lparr>entered := False\<rparr>
      | (Threw name message, d') \<Rightarrow>
          (d'\<lparr>driver_log := driver_log d' @ [HandlerFailed name message]\<rparr>)
            \<lparr>entered := False\<rparr>)"

definition enter :: "'s callback \<Rightarrow> 's driver \<Rightarrow> 's driver" where
  "enter callback d =
     (if entered d then d else finish (callback (d\<lparr>entered := True\<rparr>)))"

text \<open>
  \<open>DriverImpl.connect\<close> registers, for a signal, the callback that runs the
  handler on the signal's arguments inside \<open>enter\<close>.
\<close>

definition unboundCallback :: "('a \<Rightarrow> 's callback) \<Rightarrow> 'a \<Rightarrow> 's driver \<Rightarrow> 's driver" where
  "unboundCallback handler args d = enter (handler args) d"

definition connect ::
  "('sig \<times> ('a \<Rightarrow> 's driver \<Rightarrow> 's driver)) list \<Rightarrow> 'sig \<Rightarrow> ('a \<Rightarrow> 's callback) \<Rightarrow>
   ('sig \<times> ('a \<Rightarrow> 's driver \<Rightarrow> 's driver)) list" where
  "connect registeredConnections signal handler =
     registeredConnections @ [(signal, unboundCallback handler)]"

text \<open>The host emits a signal: every callback connected to it runs, in order.\<close>

definition emit ::
  "('sig \<times> ('a \<Rightarrow> 's driver \<Rightarrow> 's driver)) list \<Rightarrow> 'sig \<Rightarrow> 'a \<Rightarrow> 's driver \<Rightarrow> 's driver" where
  "emit registeredConnections signal args d =
     fold (\<lambda>(sg, cb) s. if sg = signal then cb args s else s) registeredConnections d"

subsection \<open>The master stack as the specification words it\<close>

text \<open>
  The tileable-or-minimized windows of the group of window \<open>w\<close>, in store
  order, without the minimized ones, except that \<open>w\<close> itself is kept.
\<close>

definition master_stack_view :: "env \<Rightarrow> engine \<Rightarrow> wid \<Rightarrow> wid list" where
  "master_stack_view e st w =
     filter (\<lambda>i. \<not> client_minimized (heap st i) \<or> i = w)
       (filter (\<lambda>i. (tileable e (heap st i) \<or> client_minimized (heap st i)) \<and>
                     w_group (heap st i) = w_group (heap st w)) (windows st))"

section \<open>Concrete scenarios\<close>

text \<open>
  One screen of 1920 by 1080 pixels, shown as surface \<open>s0\<close> on desktop 1 of
  activity \<open>a\<close>; windows that live there, without a group.
\<close>

definition screen_area :: rect where
  "screen_area = \<lparr>rect_x = 0, rect_y = 0, rect_width = 1920, rect_height = 1080\<rparr>"

definition surface0 :: surface where
  "surface0 = \<lparr>s_id = ''s0'', s_screen = 0, s_activity = ''a'', s_desktop = 1,
               s_groups = [], s_workingArea = screen_area\<rparr>"

definition surface1 :: surface where
  "surface1 = \<lparr>s_id = ''s1'', s_screen = 1, s_activity = ''a'', s_desktop = 1,
               s_groups = [], s_workingArea = screen_area\<rparr>"

definition plain_window :: "WindowState \<Rightarrow> rect \<Rightarrow> int \<Rightarrow> window" where
  "plain_window ws g t =
     \<lparr>w_state = ws, w_geometry = g, w_timestamp = t, w_shouldIgnore = False,
      w_shouldFloat = False, w_group = None, w_screen = 0, w_desktop = 1,
      client_minimized = False, client_desktop = 1, client_activities = []\<rparr>"

text \<open>
  Modelled from the spec: an instance of the collaborators for the scenarios.
  A window counts as tiled and as tileable when its state is \<open>Tiled\<close> or
  \<open>Maximized\<close> (the spec does not tell \<open>Maximized\<close> from \<open>Tiled\<close> for navigation);
  committing leaves the window object as it is; the host derives surface \<open>s0\<close>
  for screen 0 and surface \<open>s1\<close> for every other screen.
\<close>

definition scenario_env :: env where
  "scenario_env =
     \<lparr>tileable = (\<lambda>w. w_state w = Tiled \<or> w_state w = Maximized),
      tiled = (\<lambda>w. w_state w = Tiled \<or> w_state w = Maximized),
      commit = (\<lambda>w. w),
      currentActivity = ''a'',
      screens = [surface0, surface1],
      currentSurface = surface0,
      surfaceId = (\<lambda>scr act desk. if scr = 0 then ''s0'' else ''s1''),
      surfaceGroups = (\<lambda>scr act desk. []),
      surfaceWorkingArea = (\<lambda>scr act desk. screen_area)\<rparr>"

text \<open>
  A layout for the scenarios: stack-capable with one master tile; it gives
  every tile the whole tiling area and the state \<open>Tiled\<close>.
\<close>

definition fill_layout :: layout where
  "fill_layout =
     \<lparr>numMasterTiles = Some 1, isMonocle = False,
      layout_apply = (\<lambda>tiles area h.
         fold (\<lambda>i h'. h'(i := (h' i)\<lparr>w_state := Tiled, w_geometry := area\<rparr>)) tiles h)\<rparr>"

definition scenario_config :: config where
  "scenario_config =
     \<lparr>maximizeSoleTile = False, limitTileWidthRatio = 0, monocleMaximize = False,
      screenGapLeft = 0, screenGapRight = 0, screenGapTop = 0, screenGapBottom = 0,
      newWindowSpawnLocation = ''end'', moveBetweenSurfaces = False\<rparr>"

definition band_rect :: "int \<Rightarrow> rect" where
  "band_rect top_y = \<lparr>rect_x = 0, rect_y = top_y, rect_width = 1920, rect_height = 100\<rparr>"

text \<open>
  Three tiles stacked vertically at \<open>y = 0, 100, 200\<close>, each 100 tall and as
  wide as the screen; the focus is on the window given.
\<close>

definition three_tiles :: "wid option \<Rightarrow> engine" where
  "three_tiles focus =
     \<lparr>windows = [0, 1, 2],
      heap = (\<lambda>i. plain_window Tiled (band_rect (100 * int i)) (int i)),
      layouts = (\<lambda>sid. fill_layout),
      currentWindow = focus,
      savedList = [],
      history = []\<rparr>"

text \<open>
  One tiled window (number 0) on the screen and a new window (number 1) that
  the host has just announced; the store holds the windows given.
\<close>

definition small_engine :: "wid list \<Rightarrow> engine" where
  "small_engine ws =
     \<lparr>windows = ws,
      heap = (\<lambda>i. plain_window (if i = 0 then Tiled else Undecided) screen_area (int i)),
      layouts = (\<lambda>sid. fill_layout),
      currentWindow = None,
      savedList = [],
      history = []\<rparr>"



text \<open>
  A driver at rest whose handlers add their argument to a counter; one handler
  returns, the other throws after counting.
\<close>

definition idle_driver :: "nat driver" where
  "idle_driver = \<lparr>entered = False, driver_log = [], app = 0\<rparr>"

definition counting_handler :: "nat \<Rightarrow> nat callback" where
  "counting_handler n d = (Returned, d\<lparr>app := app d + n\<rparr>)"

definition failing_handler :: "nat \<Rightarrow> nat callback" where
  "failing_handler n d = (Threw ''TypeError'' ''undefined'', d\<lparr>app := app d + n\<rparr>)"


section \<open>Notions used to state the claims about arrangement\<close>

text \<open>
  The phase of an arrangement a step belongs to: classification (0), layout
  application or maximizing the sole tile (1), width limit (2), commit (3).
  The other steps are not part of an arrangement (4).
\<close>

fun phase :: "event \<Rightarrow> nat" where
  "phase (Classified _) = 0"
| "phase (SoleMaximized _) = 1"
| "phase (LayoutApplied _) = 1"
| "phase (Clamped _) = 2"
| "phase (Committed _) = 3"
| "phase (Notified _) = 4"
| "phase ListSaved = 4"


text \<open>What the classification loop makes of one window.\<close>

definition classified :: "window \<Rightarrow> window" where
  "classified w =
     (if w_state w = Undecided
      then w\<lparr>w_state := (if w_shouldFloat w then Floating else Tiled)\<rparr> else w)"

section \<open>Notions used to state the claims about the window lifecycle\<close>





section \<open>Basic facts about the array primitives\<close>

lemma indexOf_lower: "- 1 \<le> indexOf xs w"
  by (induction xs) (auto simp: Let_def)

lemma indexOf_absent: "indexOf xs w = - 1 \<longleftrightarrow> w \<notin> set xs"
proof (induction xs)
  case Nil
  show ?case by simp
next
  case (Cons x xs)
  have "- 1 \<le> indexOf xs w" by (rule indexOf_lower)
  with Cons show ?case by (auto simp: Let_def)
qed

lemma indexOf_neg: "indexOf xs w < 0 \<longleftrightarrow> w \<notin> set xs"
  using indexOf_lower [of xs w] indexOf_absent [of xs w] by auto

lemma indexOf_takeWhile:
  "w \<in> set xs \<Longrightarrow> indexOf xs w = int (length (takeWhile (\<lambda>x. x \<noteq> w) xs))"
proof (induction xs)
  case Nil
  then show ?case by simp
next
  case (Cons x xs)
  show ?case
  proof (cases "x = w")
    case True
    then show ?thesis by simp
  next
    case False
    with Cons.prems have "w \<in> set xs" by simp
    with Cons.IH False show ?thesis by (simp add: Let_def)
  qed
qed

lemma indexOf_bounds: "w \<in> set xs \<Longrightarrow> 0 \<le> indexOf xs w \<and> indexOf xs w < int (length xs)"
proof -
  assume w: "w \<in> set xs"
  then have "length (takeWhile (\<lambda>x. x \<noteq> w) xs) < length xs"
    by (induction xs) auto
  with w show ?thesis by (simp add: indexOf_takeWhile)
qed

lemma splice_start_nat [simp]: "n \<le> length xs \<Longrightarrow> splice_start (int n) xs = n"
  by (simp add: splice_start_def)

lemma splice_start_over [simp]: "length xs \<le> n \<Longrightarrow> splice_start (int n) xs = length xs"
  by (simp add: splice_start_def)

lemma indexOf_nth: "w \<in> set xs \<Longrightarrow> xs ! nat (indexOf xs w) = w"
proof -
  assume w: "w \<in> set xs"
  let ?n = "length (takeWhile (\<lambda>x. x \<noteq> w) xs)"
  from indexOf_bounds [OF w] have "?n < length xs" by (simp add: indexOf_takeWhile [OF w])
  then have "\<not> (xs ! ?n \<noteq> w)" by (rule nth_length_takeWhile)
  then show ?thesis by (simp add: indexOf_takeWhile [OF w])
qed

lemma indexOf_nat:
  "w \<in> set xs \<Longrightarrow> \<exists>n. indexOf xs w = int n \<and> n < length xs \<and> xs ! n = w"
proof -
  assume w: "w \<in> set xs"
  from indexOf_bounds [OF w] have "nat (indexOf xs w) < length xs" by linarith
  with indexOf_bounds [OF w] indexOf_nth [OF w] show ?thesis
    by (intro exI [of _ "nat (indexOf xs w)"]) simp
qed

lemma splice_delete1_indexOf:
  "w \<in> set xs \<Longrightarrow> splice_delete1 (indexOf xs w) xs = remove1 w xs"
proof (induction xs)
  case Nil
  then show ?case by simp
next
  case (Cons x xs)
  show ?case
  proof (cases "x = w")
    case True
    then show ?thesis by (simp add: splice_delete1_def splice_start_def)
  next
    case False
    with Cons.prems have w: "w \<in> set xs" by simp
    from indexOf_nat [OF w] obtain n where n: "indexOf xs w = int n" "n < length xs"
      by blast
    from Cons.IH [OF w] n have "take n xs @ drop (Suc n) xs = remove1 w xs"
      by (simp add: splice_delete1_def)
    moreover from False n have "splice_start (indexOf (x # xs) w) (x # xs) = Suc n"
      by (simp add: splice_start_def)
    ultimately show ?thesis using False
      by (simp add: splice_delete1_def del: indexOf.simps)
  qed
qed

lemma remove_remove1: "remove w xs = remove1 w xs"
proof (cases "w \<in> set xs")
  case True
  then show ?thesis
    using indexOf_bounds [of w xs] by (simp add: remove_def splice_delete1_indexOf)
next
  case False
  then have "indexOf xs w < 0" by (simp add: indexOf_neg)
  with False show ?thesis by (simp add: remove_def remove1_idem)
qed

lemma set_splice_insert [simp]: "set (splice_insert i w ys) = insert w (set ys)"
proof -
  have "set (take n ys) \<union> set (drop n ys) = set ys" for n
    by (metis append_take_drop_id set_append)
  then show ?thesis by (auto simp: splice_insert_def Let_def)
qed

lemma distinct_splice_insert:
  "distinct ys \<Longrightarrow> w \<notin> set ys \<Longrightarrow> distinct (splice_insert i w ys)"
proof -
  assume d: "distinct ys" and w: "w \<notin> set ys"
  have "distinct (take n ys @ w # drop n ys)" for n
  proof -
    have "set (take n ys) \<inter> set (drop n ys) = {}"
      using d by (simp add: set_take_disj_set_drop_if_distinct)
    moreover have "w \<notin> set (take n ys)" "w \<notin> set (drop n ys)"
      using w by (auto dest: in_set_takeD in_set_dropD)
    ultimately show ?thesis using d by auto
  qed
  then show ?thesis by (simp add: splice_insert_def Let_def)
qed

lemma move_remove1:
  "a \<in> set xs \<Longrightarrow> b \<in> set xs \<Longrightarrow>
   move a b after xs =
     splice_insert (if after then indexOf xs b + 1 else indexOf xs b) a (remove1 a xs)"
  by (simp add: move_def Let_def indexOf_absent splice_delete1_indexOf)

lemma move_absent: "a \<notin> set xs \<or> b \<notin> set xs \<Longrightarrow> move a b after xs = xs"
  by (auto simp: move_def Let_def indexOf_absent)

lemma set_move [simp]: "set (move a b after xs) = set xs"
proof (cases "a \<in> set xs \<and> b \<in> set xs")
  case True
  then have "insert a (set (remove1 a xs)) = set xs"
    using set_remove1_subset [of a xs] in_set_remove1 [of _ a xs] by blast
  with True show ?thesis by (simp add: move_remove1)
next
  case False
  then show ?thesis by (simp add: move_absent)
qed

lemma distinct_move: "distinct xs \<Longrightarrow> distinct (move a b after xs)"
proof (cases "a \<in> set xs \<and> b \<in> set xs")
  case True
  assume "distinct xs"
  then have "distinct (remove1 a xs)" "a \<notin> set (remove1 a xs)" by simp_all
  with True show ?thesis by (simp add: move_remove1 distinct_splice_insert)
next
  case False
  assume "distinct xs"
  with False show ?thesis by (simp add: move_absent)
qed

lemma swap_absent: "a \<notin> set xs \<or> b \<notin> set xs \<Longrightarrow> swap a b xs = xs"
  by (auto simp: swap_def Let_def indexOf_neg)

lemma swap_nth:
  "a \<in> set xs \<Longrightarrow> b \<in> set xs \<Longrightarrow>
   \<exists>i j. i < length xs \<and> j < length xs \<and> swap a b xs = xs[i := xs ! j, j := xs ! i]"
proof -
  assume a: "a \<in> set xs" and b: "b \<in> set xs"
  from indexOf_nat [OF a] obtain i where i: "indexOf xs a = int i" "i < length xs" "xs ! i = a"
    by blast
  from indexOf_nat [OF b] obtain j where j: "indexOf xs b = int j" "j < length xs" "xs ! j = b"
    by blast
  have "swap a b xs = xs[i := xs ! j, j := xs ! i]"
    using i j by (simp add: swap_def)
  with i j show ?thesis by blast
qed

lemma set_swap_store [simp]: "set (swap a b xs) = set xs"
proof (cases "a \<in> set xs \<and> b \<in> set xs")
  case True
  with swap_nth [of a xs b] show ?thesis by (auto simp: set_swap)
next
  case False
  then show ?thesis by (simp add: swap_absent)
qed

lemma distinct_swap_store: "distinct xs \<Longrightarrow> distinct (swap a b xs)"
proof (cases "a \<in> set xs \<and> b \<in> set xs")
  case True
  assume "distinct xs"
  with True swap_nth [of a xs b] show ?thesis by (auto simp: distinct_swap)
next
  case False
  assume "distinct xs"
  with False show ?thesis by (simp add: swap_absent)
qed

lemma pushed_subset:
  "S \<subseteq> set xs \<Longrightarrow> pushed_not_removed ops S \<subseteq> set (run_store_ops ops xs)"
proof (induction ops arbitrary: xs S)
  case Nil
  then show ?case by simp
next
  case (Cons opn ops)
  show ?case
  proof (cases opn)
    case (Push w)
    from Cons.prems have "insert w S \<subseteq> set (push w xs)" by (auto simp: push_def)
    from Cons.IH [OF this] Push show ?thesis by simp
  next
    case (Remove w)
    have "x \<in> set (remove1 w xs)" if "x \<in> set xs" "x \<noteq> w" for x
      using that by (simp add: in_set_remove1)
    with Cons.prems have "S - {w} \<subseteq> set (remove w xs)"
      unfolding remove_remove1 by blast
    from Cons.IH [OF this] Remove show ?thesis by simp
  next
    case (Move a b after)
    from Cons.prems have "S \<subseteq> set (move a b after xs)" by simp
    from Cons.IH [OF this] Move show ?thesis by simp
  next
    case (Swap a b)
    from Cons.prems have "S \<subseteq> set (swap a b xs)" by simp
    from Cons.IH [OF this] Swap show ?thesis by simp
  qed
qed

lemma fresh_distinct:
  "distinct xs \<Longrightarrow> pushes_fresh ops xs \<Longrightarrow>
   distinct (run_store_ops ops xs) \<and> set (run_store_ops ops xs) = pushed_not_removed ops (set xs)"
proof (induction ops arbitrary: xs)
  case Nil
  then show ?case by simp
next
  case (Cons opn ops)
  show ?case
  proof (cases opn)
    case (Push w)
    with Cons.prems have "distinct (push w xs)" "pushes_fresh ops (push w xs)"
      by (simp_all add: push_def)
    from Cons.IH [OF this] Push show ?thesis by (simp add: push_def)
  next
    case (Remove w)
    with Cons.prems have "distinct (remove w xs)" "pushes_fresh ops (remove w xs)"
      by (simp_all add: remove_remove1)
    from Cons.IH [OF this] Remove Cons.prems(1) show ?thesis
      by (simp add: remove_remove1)
  next
    case (Move a b after)
    with Cons.prems have "distinct (move a b after xs)" "pushes_fresh ops (move a b after xs)"
      by (simp_all add: distinct_move)
    from Cons.IH [OF this] Move show ?thesis by simp
  next
    case (Swap a b)
    with Cons.prems have "distinct (swap a b xs)" "pushes_fresh ops (swap a b xs)"
      by (simp_all add: distinct_swap_store)
    from Cons.IH [OF this] Swap show ?thesis by simp
  qed
qed

section \<open>Claims about the window store\<close>

text \<open>
  Claim C1.  \<open>move(a, b)\<close> is documented to put \<open>a\<close> immediately before \<open>b\<close>
  (immediately after it when \<open>after\<close> is true).  The destination index is read
  before the source window is deleted, so when \<open>a\<close> sits in front of \<open>b\<close> the
  insertion lands one slot too far: in the store \<open>[0, 1, 2]\<close> the call
  \<open>move(0, 1)\<close> leaves window 0 directly behind window 1, and in
  \<open>[0, 1, 2, 3]\<close> the call \<open>move(0, 1, true)\<close> leaves window 2 between them.
\<close>

theorem move_from_before_dest:
  "move (0::nat) 1 False [0, 1, 2] = [1, 0, 2] \<and>
   indexOf (move (0::nat) 1 False [0, 1, 2]) 0 = indexOf (move (0::nat) 1 False [0, 1, 2]) 1 + 1 \<and>
   move (0::nat) 1 True [0, 1, 2, 3] = [1, 2, 0, 3] \<and>
   indexOf (move (0::nat) 1 True [0, 1, 2, 3]) 0 = indexOf (move (0::nat) 1 True [0, 1, 2, 3]) 1 + 2"
  by (simp add: move_def splice_delete1_def splice_insert_def splice_start_def)

text \<open>
  Claim C2, as stated, fails: \<open>push\<close> appends without looking, so pushing a window
  that is already stored duplicates it.
\<close>

theorem store_duplicate_counterexample:
  "run_store_ops [Push (1::nat), Push 1] [] = [1, 1] \<and>
   \<not> distinct (run_store_ops [Push (1::nat), Push 1] [])"
  by (simp add: push_def)

text \<open>
  Claim C2, amended.  For every sequence of \<open>push\<close>, \<open>remove\<close>, \<open>move\<close> and
  \<open>swap\<close> applied to the empty store, every window pushed and not removed
  afterwards is still in the store; and when no \<open>push\<close> names a window that the
  store already holds, the store has no duplicates and holds exactly the windows
  pushed and not removed afterwards.
\<close>

theorem store_ops_invariant:
  "pushed_not_removed ops {} \<subseteq> set (run_store_ops ops []) \<and>
   (pushes_fresh ops [] \<longrightarrow>
      distinct (run_store_ops ops []) \<and>
      set (run_store_ops ops []) = pushed_not_removed ops {})"
  using pushed_subset [of "{}" "[]" ops] fresh_distinct [of "[]" ops] by simp

theorem store_ops_invariant_witness:
  "pushes_fresh [Push (1::nat), Push 2, Move 2 1 False, Swap 1 2, Remove 1, Push 1] [] \<and>
   distinct (run_store_ops [Push (1::nat), Push 2, Move 2 1 False, Swap 1 2, Remove 1, Push 1] []) \<and>
   run_store_ops [Push (1::nat), Push 2, Move 2 1 False, Swap 1 2, Remove 1, Push 1] [] = [2, 1]"
proof -
  let ?ops = "[Push (1::nat), Push 2, Move 2 1 False, Swap 1 2, Remove 1, Push 1]"
  have f: "pushes_fresh ?ops []"
    by (simp add: push_def remove_def move_def swap_def splice_delete1_def splice_insert_def
        splice_start_def)
  have r: "run_store_ops ?ops [] = [2, 1]"
    by (simp add: push_def remove_def move_def swap_def splice_delete1_def splice_insert_def
        splice_start_def)
  from store_ops_invariant [of ?ops] f have "distinct (run_store_ops ?ops [])" by blast
  with f r show ?thesis by blast
qed

section \<open>Claim about the master stack\<close>

lemma indexOf_le_nth: "k < length xs \<Longrightarrow> xs ! k = w \<Longrightarrow> indexOf xs w \<le> int k"
proof (induction xs arbitrary: k)
  case Nil
  then show ?case by simp
next
  case (Cons x xs)
  show ?case
  proof (cases "x = w")
    case True
    then show ?thesis by simp
  next
    case False
    with Cons.prems obtain k' where k: "k = Suc k'" by (cases k) auto
    with Cons.prems have "k' < length xs" "xs ! k' = w" by simp_all
    from Cons.IH [OF this] False k show ?thesis by (simp add: Let_def)
  qed
qed

lemma indexOf_in_range:
  "(0 \<le> indexOf xs w \<and> indexOf xs w < n) \<longleftrightarrow>
   (\<exists>k. 0 \<le> k \<and> k < n \<and> at_index xs k = Some w)"
proof
  assume a: "0 \<le> indexOf xs w \<and> indexOf xs w < n"
  then have "w \<in> set xs" using indexOf_neg [of xs w] by auto
  from indexOf_nat [OF this] obtain m where m: "indexOf xs w = int m" "m < length xs" "xs ! m = w"
    by blast
  with a have "0 \<le> int m \<and> int m < n \<and> at_index xs (int m) = Some w"
    by (simp add: at_index_def)
  then show "\<exists>k. 0 \<le> k \<and> k < n \<and> at_index xs k = Some w" by blast
next
  assume "\<exists>k. 0 \<le> k \<and> k < n \<and> at_index xs k = Some w"
  then obtain k where k: "0 \<le> k" "k < n" "at_index xs k = Some w" by blast
  then have kk: "nat k < length xs" "xs ! nat k = w"
    by (auto simp: at_index_def split: if_splits)
  then have "w \<in> set xs" by auto
  then have "0 \<le> indexOf xs w" using indexOf_bounds [of w xs] by simp
  moreover from indexOf_le_nth [OF kk] k have "indexOf xs w < n" by simp
  ultimately show "0 \<le> indexOf xs w \<and> indexOf xs w < n" by simp
qed

text \<open>
  Claim C9.  \<open>isInMasterStack(window, stackSize)\<close> is true exactly when the window
  stands at an index in \<open>[0, stackSize)\<close> of the list of its group's
  tileable-or-minimized windows from which the minimized windows, other than the
  window itself, are removed.
\<close>

theorem isInMasterStack_iff:
  "isInMasterStack e st w stackSize \<longleftrightarrow>
   (\<exists>k. 0 \<le> k \<and> k < stackSize \<and> at_index (master_stack_view e st w) k = Some w)"
  unfolding isInMasterStack_def tiledWindowsIn_def master_stack_view_def Let_def
  by (rule indexOf_in_range)

theorem isInMasterStack_iff_witness:
  "isInMasterStack scenario_env (three_tiles None) 2 3 \<and>
   at_index (master_stack_view scenario_env (three_tiles None) 2) 2 = Some 2 \<and>
   \<not> isInMasterStack scenario_env (three_tiles None) 2 2"
proof -
  have v: "master_stack_view scenario_env (three_tiles None) 2 = [0, 1, 2]"
    by (simp add: master_stack_view_def three_tiles_def scenario_env_def plain_window_def)
  have a: "at_index (master_stack_view scenario_env (three_tiles None) 2) 2 = Some 2"
    by (simp add: v at_index_def)
  have "at_index [0, 1, 2 :: nat] k \<noteq> Some 2" if "0 \<le> k" "k < 2" for k :: int
  proof -
    from that have "k = 0 \<or> k = 1" by auto
    then show ?thesis by (auto simp: at_index_def)
  qed
  then have b: "\<not> (\<exists>k. 0 \<le> k \<and> k < 2 \<and>
      at_index (master_stack_view scenario_env (three_tiles None) 2) k = Some 2)"
    unfolding v by blast
  from a have "\<exists>k. 0 \<le> k \<and> k < 3 \<and>
      at_index (master_stack_view scenario_env (three_tiles None) 2) k = Some 2"
    by (intro exI [of _ 2]) simp
  with a b isInMasterStack_iff [of scenario_env "three_tiles None" 2 3]
    isInMasterStack_iff [of scenario_env "three_tiles None" 2 2]
  show ?thesis by blast
qed

section \<open>Claim about the re-entrancy guard\<close>

lemma finish_clears: "\<not> entered (finish r)"
  by (cases r) (simp add: finish_def split: outcome.splits)

lemma unboundCallback_runs:
  "\<not> entered d \<Longrightarrow> unboundCallback handler args d = finish (handler args (d\<lparr>entered := True\<rparr>))"
  by (simp add: unboundCallback_def enter_def finish_def split: prod.splits outcome.splits)

lemma unboundCallback_dropped: "entered d \<Longrightarrow> unboundCallback handler args d = d"
  by (simp add: unboundCallback_def enter_def)

text \<open>
  Claim C8.  A signal delivered while the flag \<open>entered\<close> is set is dropped: the
  driver is left exactly as it was, whatever the handler is, so the handler has
  not run and nothing is kept for later.  A signal delivered while the flag is
  clear runs the handler with the flag set, and the flag is clear again
  afterwards, for a handler that returns and for one that throws alike; hence the
  signal after it is processed normally.  A delivery nested inside a returning
  handler has no effect.
\<close>

theorem reentrancy_guard:
  "(entered d \<longrightarrow> unboundCallback handler args d = d) \<and>
   (\<not> entered d \<longrightarrow>
      unboundCallback handler args d = finish (handler args (d\<lparr>entered := True\<rparr>))) \<and>
   \<not> entered (finish r) \<and>
   (\<not> entered d \<longrightarrow>
      unboundCallback handler2 args2 (unboundCallback handler args d) =
        finish (handler2 args2 ((unboundCallback handler args d)\<lparr>entered := True\<rparr>))) \<and>
   (\<not> entered d \<longrightarrow>
      unboundCallback (\<lambda>a x. (Returned, unboundCallback handler2 args2 x)) args d = d)"
proof -
  have "\<not> entered (unboundCallback handler args d)" if "\<not> entered d"
    using that by (simp add: unboundCallback_runs finish_clears)
  moreover have "unboundCallback (\<lambda>a x. (Returned, unboundCallback handler2 args2 x)) args d = d"
    if "\<not> entered d"
    using that by (simp add: unboundCallback_runs unboundCallback_dropped finish_def)
  ultimately show ?thesis
    by (simp add: finish_clears unboundCallback_runs unboundCallback_dropped)
qed

theorem reentrancy_guard_witness:
  "entered (idle_driver\<lparr>entered := True\<rparr>) \<and>
   unboundCallback counting_handler 1 (idle_driver\<lparr>entered := True\<rparr>) =
     idle_driver\<lparr>entered := True\<rparr> \<and>
   \<not> entered idle_driver \<and>
   unboundCallback counting_handler 1 (unboundCallback failing_handler 5 idle_driver) =
     \<lparr>entered = False, driver_log = [HandlerFailed ''TypeError'' ''undefined''], app = 6\<rparr>"
proof -
  have e: "entered (idle_driver\<lparr>entered := True\<rparr>)" and n: "\<not> entered idle_driver"
    by (simp_all add: idle_driver_def)
  have a: "unboundCallback counting_handler 1 (idle_driver\<lparr>entered := True\<rparr>) =
      idle_driver\<lparr>entered := True\<rparr>"
    by (rule mp [OF conjunct1 [OF reentrancy_guard] e])
  note g = reentrancy_guard [of idle_driver failing_handler 5 "(Returned, idle_driver)"
      counting_handler 1]
  from g n have s1: "unboundCallback failing_handler 5 idle_driver =
      finish (failing_handler 5 (idle_driver\<lparr>entered := True\<rparr>))"
    by blast
  from g n have s2:
    "unboundCallback counting_handler 1 (unboundCallback failing_handler 5 idle_driver) =
      finish (counting_handler 1
        ((unboundCallback failing_handler 5 idle_driver)\<lparr>entered := True\<rparr>))"
    by blast
  have b: "unboundCallback counting_handler 1 (unboundCallback failing_handler 5 idle_driver) =
      \<lparr>entered = False, driver_log = [HandlerFailed ''TypeError'' ''undefined''], app = 6\<rparr>"
    unfolding s2 unfolding s1
    by (simp add: finish_def failing_handler_def counting_handler_def idle_driver_def)
  from e a n b show ?thesis by blast
qed

section \<open>Claim about the directional neighbour search\<close>










lemmas scenario_defs =
  three_tiles_def scenario_env_def scenario_config_def plain_window_def band_rect_def
  surface0_def surface1_def screen_area_def small_engine_def fill_layout_def

lemmas search_defs =
  focusDir_def getNeighborByDirection_def getNeighborCandidates_def
  getClosestRelativWindowCorner_def getClosestRelativeWindow_def sort_recent_def
  visibleTiledWindowsOn_def visibleTiledWindows_def visibleWindowsOn_def
  visibleOn_def visible_def window_on_def overlap_def maxX_def maxY_def



lemma focus_down_from_top_all:
  "focusDir scenario_env (scenario_config\<lparr>moveBetweenSurfaces := True\<rparr>) Down (three_tiles (Some 0)) = three_tiles (Some 1)"
  by (simp add: search_defs scenario_defs)

lemma focus_down_from_bottom_all:
  "focusDir scenario_env (scenario_config\<lparr>moveBetweenSurfaces := True\<rparr>) Down (three_tiles (Some 2)) = three_tiles (Some 2)"
  by (simp add: search_defs scenario_defs)




section \<open>Claims about the arrangement of a surface\<close>

lemma record_event_simps [simp]:
  "windows (record_event ev st) = windows st"
  "heap (record_event ev st) = heap st"
  "layouts (record_event ev st) = layouts st"
  "currentWindow (record_event ev st) = currentWindow st"
  "savedList (record_event ev st) = savedList st"
  "history (record_event ev st) = history st @ [ev]"
  by (simp_all add: record_event_def)

lemma update_window_simps [simp]:
  "windows (update_window i f st) = windows st"
  "heap (update_window i f st) = (heap st)(i := f (heap st i))"
  "layouts (update_window i f st) = layouts st"
  "currentWindow (update_window i f st) = currentWindow st"
  "savedList (update_window i f st) = savedList st"
  "history (update_window i f st) = history st"
  by (simp_all add: update_window_def)

text \<open>A step that only writes window objects and the history.\<close>

lemma fold_frame:
  assumes "\<And>i s. windows (f i s) = windows s \<and> layouts (f i s) = layouts s \<and>
      currentWindow (f i s) = currentWindow s \<and> savedList (f i s) = savedList s"
  shows "windows (fold f is st) = windows st \<and> layouts (fold f is st) = layouts st \<and>
      currentWindow (fold f is st) = currentWindow st \<and> savedList (fold f is st) = savedList st"
  using assms by (induction "is" arbitrary: st) simp_all

lemma fold_emits:
  assumes "\<And>i s. \<exists>evs. history (f i s) = history s @ evs \<and> (\<forall>ev\<in>set evs. phase ev = k)"
  shows "\<exists>evs. history (fold f is st) = history st @ evs \<and> (\<forall>ev\<in>set evs. phase ev = k)"
proof (induction "is" arbitrary: st)
  case Nil
  show ?case by simp
next
  case (Cons i "is")
  from assms [of i st] obtain e1 where e1: "history (f i st) = history st @ e1"
    "\<forall>ev\<in>set e1. phase ev = k" by blast
  from Cons [of "f i st"] obtain e2 where e2: "history (fold f is (f i st)) = history (f i st) @ e2"
    "\<forall>ev\<in>set e2. phase ev = k" by blast
  from e1 e2 have "history (fold f (i # is) st) = history st @ (e1 @ e2)"
    "\<forall>ev\<in>set (e1 @ e2). phase ev = k" by auto
  then show ?case by blast
qed

lemma classify_window_frame:
  "windows (classify_window i s) = windows s \<and> layouts (classify_window i s) = layouts s \<and>
   currentWindow (classify_window i s) = currentWindow s \<and>
   savedList (classify_window i s) = savedList s"
  by (simp add: classify_window_def)

lemma classify_frame [simp]:
  "windows (classify surf st) = windows st"
  "layouts (classify surf st) = layouts st"
  "currentWindow (classify surf st) = currentWindow st"
  "savedList (classify surf st) = savedList st"
  using fold_frame [of classify_window, OF classify_window_frame]
  by (simp_all add: classify_def)

lemma classify_emits:
  "\<exists>evs. history (classify surf st) = history st @ evs \<and> (\<forall>ev\<in>set evs. phase ev = 0)"
  unfolding classify_def
proof (rule fold_emits)
  fix i s
  show "\<exists>evs. history (classify_window i s) = history s @ evs \<and> (\<forall>ev\<in>set evs. phase ev = 0)"
    by (cases "w_state (heap s i) = Undecided") (simp_all add: classify_window_def)
qed

lemma fold_classify_heap:
  "heap (fold classify_window is st) j =
     (if j \<in> set is then classified (heap st j) else heap st j)"
proof (induction "is" arbitrary: st)
  case Nil
  show ?case by simp
next
  case (Cons i "is")
  have c: "classified (classified w) = classified w" for w
    by (simp add: classified_def)
  have h: "heap (classify_window i st) = (heap st)(i := classified (heap st i))"
    by (auto simp: classify_window_def classified_def)
  show ?case by (simp add: Cons h c)
qed

lemma classify_heap:
  "heap (classify surf st) j =
     (if j \<in> set (visibleWindowsOn surf st) then classified (heap st j) else heap st j)"
  by (simp add: classify_def fold_classify_heap)

lemma classified_not_undecided: "w_state (classified w) \<noteq> Undecided"
  by (simp add: classified_def)

lemma uniform_sorted: "\<forall>x\<in>set xs. f x = (k::nat) \<Longrightarrow> sorted (map f xs)"
  by (induction xs) auto

lemma apply_layout_emits:
  "\<exists>evs. history (apply_layout cfg surf lay tw st) = history st @ evs \<and>
     (\<forall>ev\<in>set evs. phase ev = 1)"
  by (simp add: apply_layout_def)

lemma apply_layout_frame [simp]:
  "windows (apply_layout cfg surf lay tw st) = windows st"
  "layouts (apply_layout cfg surf lay tw st) = layouts st"
  "currentWindow (apply_layout cfg surf lay tw st) = currentWindow st"
  "savedList (apply_layout cfg surf lay tw st) = savedList st"
  by (simp_all add: apply_layout_def)

lemma clamp_window_frame:
  "windows (clamp_window m i s) = windows s \<and> layouts (clamp_window m i s) = layouts s \<and>
   currentWindow (clamp_window m i s) = currentWindow s \<and>
   savedList (clamp_window m i s) = savedList s"
  by (simp add: clamp_window_def)

lemma limit_tiles_frame [simp]:
  "windows (limit_tiles e cfg surf lay tw st) = windows st"
  "layouts (limit_tiles e cfg surf lay tw st) = layouts st"
  "currentWindow (limit_tiles e cfg surf lay tw st) = currentWindow st"
  "savedList (limit_tiles e cfg surf lay tw st) = savedList st"
  using fold_frame [of "clamp_window m" for m, OF clamp_window_frame]
  by (simp_all add: limit_tiles_def Let_def)

lemma limit_tiles_emits:
  "\<exists>evs. history (limit_tiles e cfg surf lay tw st) = history st @ evs \<and>
     (\<forall>ev\<in>set evs. phase ev = 2)"
proof (cases "limitTileWidthRatio cfg > 0 \<and> \<not> isMonocle lay")
  case True
  have "\<exists>evs. history (fold (clamp_window m) is st) = history st @ evs \<and>
      (\<forall>ev\<in>set evs. phase ev = 2)" for m "is"
    by (rule fold_emits) (simp add: clamp_window_def)
  with True show ?thesis by (simp add: limit_tiles_def Let_def)
next
  case False
  then show ?thesis by (auto simp: limit_tiles_def)
qed

lemma commit_window_frame:
  "windows (commit_window e surf i s) = windows s \<and>
   layouts (commit_window e surf i s) = layouts s \<and>
   currentWindow (commit_window e surf i s) = currentWindow s \<and>
   savedList (commit_window e surf i s) = savedList s"
  by (simp add: commit_window_def)

lemma commitArrangement_frame [simp]:
  "windows (commitArrangement e surf st) = windows st"
  "layouts (commitArrangement e surf st) = layouts st"
  "currentWindow (commitArrangement e surf st) = currentWindow st"
  "savedList (commitArrangement e surf st) = savedList st"
  using fold_frame [of "commit_window e surf", OF commit_window_frame]
  by (simp_all add: commitArrangement_def)

lemma commitArrangement_emits:
  "\<exists>evs. history (commitArrangement e surf st) = history st @ evs \<and>
     (\<forall>ev\<in>set evs. phase ev = 3)"
  unfolding commitArrangement_def
  by (rule fold_emits) (simp add: commit_window_def)

lemma arrangeScreen_frame [simp]:
  "windows (arrangeScreen e cfg surf st) = windows st"
  "layouts (arrangeScreen e cfg surf st) = layouts st"
  "currentWindow (arrangeScreen e cfg surf st) = currentWindow st"
  "savedList (arrangeScreen e cfg surf st) = savedList st"
  by (simp_all add: arrangeScreen_def Let_def)

lemma arrangeScreen_emits:
  "\<exists>evs. history (arrangeScreen e cfg surf st) = history st @ evs \<and>
     sorted (map phase evs) \<and> (\<forall>ev\<in>set evs. phase ev < 3)"
proof -
  let ?lay = "getCurrentLayout st surf"
  let ?s1 = "classify surf st"
  let ?tw = "visibleTileableWindowsOn e surf ?s1"
  let ?s2 = "apply_layout cfg surf ?lay ?tw ?s1"
  let ?s3 = "limit_tiles e cfg surf ?lay ?tw ?s2"
  from classify_emits [of surf st] obtain e0 where
    e0: "history ?s1 = history st @ e0" "\<forall>ev\<in>set e0. phase ev = 0" by blast
  from apply_layout_emits [of cfg surf ?lay ?tw ?s1] obtain e1 where
    e1: "history ?s2 = history ?s1 @ e1" "\<forall>ev\<in>set e1. phase ev = 1" by blast
  from limit_tiles_emits [of e cfg surf ?lay ?tw ?s2] obtain e2 where
    e2: "history ?s3 = history ?s2 @ e2" "\<forall>ev\<in>set e2. phase ev = 2" by blast
  have h: "history (arrangeScreen e cfg surf st) = history st @ (e0 @ e1 @ e2)"
    using e0(1) e1(1) e2(1) by (simp add: arrangeScreen_def Let_def)
  have "sorted (map phase (e0 @ e1 @ e2))"
    using e0(2) e1(2) e2(2) uniform_sorted [of e0 phase 0] uniform_sorted [of e1 phase 1]
      uniform_sorted [of e2 phase 2]
    by (auto simp: sorted_append)
  moreover have "\<forall>ev\<in>set (e0 @ e1 @ e2). phase ev < 3"
    using e0(2) e1(2) e2(2) by auto
  ultimately show ?thesis using h by blast
qed

lemma arrange_surface_emits:
  "\<exists>evs. history (arrange e cfg (GivenSurface surf) st) = history st @ evs \<and>
     sorted (map phase evs) \<and> (\<forall>ev\<in>set evs. phase ev < 4)"
proof -
  from arrangeScreen_emits [of e cfg surf st] obtain ea where
    ea: "history (arrangeScreen e cfg surf st) = history st @ ea" "sorted (map phase ea)"
      "\<forall>ev\<in>set ea. phase ev < 3" by blast
  from commitArrangement_emits [of e surf "arrangeScreen e cfg surf st"] obtain ec where
    ec: "history (commitArrangement e surf (arrangeScreen e cfg surf st)) =
        history (arrangeScreen e cfg surf st) @ ec" "\<forall>ev\<in>set ec. phase ev = 3" by blast
  have h: "history (arrange e cfg (GivenSurface surf) st) = history st @ (ea @ ec)"
    using ea(1) ec(1) by (simp add: arrange_def)
  have "sorted (map phase (ea @ ec))"
    using ea(2,3) ec(2) uniform_sorted [of ec phase 3] by (fastforce simp: sorted_append)
  moreover have "\<forall>ev\<in>set (ea @ ec). phase ev < 4"
    using ea(3) ec(2) by fastforce
  ultimately show ?thesis using h by blast
qed

lemma classify_complete:
  "\<forall>i\<in>set (visibleWindowsOn surf st). w_state (heap (classify surf st) i) \<noteq> Undecided"
  by (simp add: classify_heap classified_not_undecided)

lemmas arrange_defs =
  arrange_def arrangeScreen_def commitArrangement_def classify_def classify_window_def
  apply_layout_def limit_tiles_def clamp_window_def commit_window_def limit_width_def
  maxTileWidth_def getTilingArea_def getCurrentLayout_def gap_def
  record_event_def update_window_def set_engine_surface_def set_driver_surface_def
  visibleWindowsOn_def visibleTileableWindowsOn_def allWindowsOn_def
  visibleOn_def window_on_def

lemma arrangement_history:
  "history (arrange scenario_env (scenario_config\<lparr>limitTileWidthRatio := 1\<rparr>)
      (GivenSurface surface0) (small_engine [0, 1])) =
   [Classified 1, LayoutApplied ''s0'', Clamped 0, Clamped 1, Committed 0, Committed 1]"
  by (simp add: arrange_defs scenario_defs)

text \<open>
  Claim C7.  The steps of one arrangement of a surface happen in the order of
  their phases: every classification before the layout is applied (or the sole
  tile maximized), that before every narrowing to the width limit, and that
  before every commit; nothing else happens in an arrangement.  When the
  classification is over, no window visible on the surface is \<open>Undecided\<close>.
\<close>

theorem arrangement_phases:
  "(\<exists>evs. history (arrange e cfg (GivenSurface surf) st) = history st @ evs \<and>
      sorted (map phase evs) \<and> (\<forall>ev\<in>set evs. phase ev < 4)) \<and>
   (\<forall>i\<in>set (visibleWindowsOn surf st). w_state (heap (classify surf st) i) \<noteq> Undecided)"
  using arrange_surface_emits [of e cfg surf st] classify_complete [of surf st] by blast

theorem arrangement_phases_witness:
  "history (arrange scenario_env (scenario_config\<lparr>limitTileWidthRatio := 1\<rparr>)
      (GivenSurface surface0) (small_engine [0, 1])) =
     [Classified 1, LayoutApplied ''s0'', Clamped 0, Clamped 1, Committed 0, Committed 1] \<and>
   sorted (map phase (history (arrange scenario_env (scenario_config\<lparr>limitTileWidthRatio := 1\<rparr>)
      (GivenSurface surface0) (small_engine [0, 1])))) \<and>
   visibleWindowsOn surface0 (small_engine [0, 1]) = [0, 1] \<and>
   w_state (heap (classify surface0 (small_engine [0, 1])) 1) = Tiled"
proof -
  let ?cfg = "scenario_config\<lparr>limitTileWidthRatio := 1\<rparr>"
  let ?st = "small_engine [0, 1]"
  have h0: "history ?st = []" by (simp add: small_engine_def)
  from arrangement_phases [of scenario_env ?cfg surface0 ?st] obtain evs where
    "history (arrange scenario_env ?cfg (GivenSurface surface0) ?st) = history ?st @ evs"
    "sorted (map phase evs)" by blast
  with h0 have s: "sorted (map phase (history (arrange scenario_env ?cfg (GivenSurface surface0) ?st)))"
    by simp
  have v: "visibleWindowsOn surface0 ?st = [0, 1]"
    by (simp add: arrange_defs scenario_defs)
  have c: "w_state (heap (classify surface0 ?st) 1) = Tiled"
    by (simp add: arrange_defs scenario_defs)
  from arrangement_history s v c show ?thesis by blast
qed








section \<open>Claims about the window lifecycle\<close>



lemma splice_insert_nat:
  "n \<le> length xs \<Longrightarrow> splice_insert (int n) w xs = take n xs @ w # drop n xs"
  by (simp add: splice_insert_def Let_def)










lemma saveWindows_simps [simp]:
  "windows (saveWindows st) = windows st"
  "heap (saveWindows st) = heap st"
  "layouts (saveWindows st) = layouts st"
  "currentWindow (saveWindows st) = currentWindow st"
  "history (saveWindows st) = history st @ [ListSaved]"
  by (simp_all add: saveWindows_def)

lemma manage_insert_simps [simp]:
  "windows (manage_insert cfg w st) = spawn cfg (currentWindow st) w (windows st)"
  "heap (manage_insert cfg w st) = (heap st)(w := (heap st w)\<lparr>w_state := Undecided\<rparr>)"
  "layouts (manage_insert cfg w st) = layouts st"
  "currentWindow (manage_insert cfg w st) = currentWindow st"
  "history (manage_insert cfg w st) = history st @ [ListSaved]"
  by (simp_all add: manage_insert_def Let_def)

lemma driver_surface_state [simp]:
  "driver_surface e (x\<lparr>w_state := s\<rparr>) = driver_surface e x"
  by (simp add: driver_surface_def)

lemma driver_surface_classified [simp]:
  "driver_surface e (classified x) = driver_surface e x"
  by (simp add: classified_def)










subsection \<open>The scenario of a window added to a screen with one tile\<close>

lemma plain_window_simps [simp]:
  "w_state (plain_window s g t) = s"
  "w_geometry (plain_window s g t) = g"
  "w_shouldIgnore (plain_window s g t) = False"
  "w_shouldFloat (plain_window s g t) = False"
  "w_group (plain_window s g t) = None"
  "client_minimized (plain_window s g t) = False"
  "w_screen (plain_window s g t) = 0"
  "w_desktop (plain_window s g t) = 1"
  "(plain_window s g t)\<lparr>w_state := s'\<rparr> = plain_window s' g t"
  "(plain_window s g t)\<lparr>w_geometry := g'\<rparr> = plain_window s g' t"
  by (simp_all add: plain_window_def)

lemma scenario_surface [simp]:
  "driver_surface scenario_env (plain_window s g t) = surface0"
  by (simp add: driver_surface_def DriverSurfaceImpl_def scenario_env_def plain_window_def
      surface0_def)

lemma scenario_on [simp]:
  "window_on (plain_window s g t) surface0"
  "\<not> window_on (plain_window s g t) surface1"
  "visibleOn (plain_window s g t) surface0"
  "\<not> visibleOn (plain_window s g t) surface1"
  by (simp_all add: visibleOn_def window_on_def plain_window_def surface0_def surface1_def)

lemma scenario_env_simps [simp]:
  "tileable scenario_env w = (w_state w = Tiled \<or> w_state w = Maximized)"
  "tiled scenario_env w = (w_state w = Tiled \<or> w_state w = Maximized)"
  "commit scenario_env w = w"
  by (simp_all add: scenario_env_def)

lemma small_engine_simps [simp]:
  "windows (small_engine ws) = ws"
  "heap (small_engine ws) i = plain_window (if i = 0 then Tiled else Undecided) screen_area (int i)"
  "layouts (small_engine ws) sid = fill_layout"
  "currentWindow (small_engine ws) = None"
  "history (small_engine ws) = []"
  by (simp_all add: small_engine_def)

lemma classified_plain [simp]:
  "classified (plain_window s g t) = plain_window (if s = Undecided then Tiled else s) g t"
  by (simp add: classified_def)

lemma scenario_spawn [simp]: "spawn scenario_config cur w xs = xs @ [w]"
  by (cases cur) (simp_all add: spawn_def scenario_config_def push_def)

lemma scenario_config_simps [simp]:
  "maximizeSoleTile scenario_config = False"
  "limitTileWidthRatio scenario_config = 0"
  "monocleMaximize scenario_config = False"
  "newWindowSpawnLocation scenario_config = ''end''"
  by (simp_all add: scenario_config_def)

lemma surface_simps [simp]:
  "s_id surface0 = ''s0''"
  "s_workingArea surface0 = screen_area"
  "s_id surface1 = ''s1''"
  "s_workingArea surface1 = screen_area"
  "s_screen surface1 = 1"
  by (simp_all add: surface0_def surface1_def)

lemma fill_layout_simps [simp]:
  "numMasterTiles fill_layout = Some 1"
  "isMonocle fill_layout = False"
  by (simp_all add: fill_layout_def)







lemma scenario_tiling_area [simp]:
  "getTilingArea scenario_config screen_area fill_layout = screen_area"
  by (simp add: getTilingArea_def scenario_config_def gap_def screen_area_def)




lemma arrange_frame [simp]:
  "windows (arrange e cfg (GivenSurface surf) st) = windows st"
  "layouts (arrange e cfg (GivenSurface surf) st) = layouts st"
  by (simp_all add: arrange_def)





section \<open>Claim about moving a window to a surface\<close>





section \<open>Where move puts the source window\<close>

text \<open>
  When the source window stands behind the destination, \<open>move\<close> puts it
  immediately before the destination, or immediately after it when \<open>after\<close> is
  true.  When it stands in front of the destination, \<open>move\<close> without \<open>after\<close>
  puts it immediately behind the destination.
\<close>

lemma indexOf_prefix:
  "w \<notin> set us \<Longrightarrow> indexOf (us @ w # vs) w = int (length us)"
proof -
  assume w: "w \<notin> set us"
  then have "takeWhile (\<lambda>x. x \<noteq> w) (us @ w # vs) = us"
    by (induction us) auto
  then show ?thesis using indexOf_takeWhile [of w "us @ w # vs"] by simp
qed

lemma move_from_behind:
  assumes a: "a \<notin> set us" "a \<notin> set vs" "a \<noteq> b" and b: "b \<notin> set us"
  shows "move a b False (us @ b # vs @ a # ws) = us @ a # b # vs @ ws"
    and "move a b True (us @ b # vs @ a # ws) = us @ b # a # vs @ ws"
proof -
  let ?xs = "us @ b # vs @ a # ws"
  have ib: "indexOf ?xs b = int (length us)" using b by (rule indexOf_prefix)
  have r: "remove1 a ?xs = us @ b # vs @ ws"
    using a by (simp add: remove1_append)
  have m: "move a b after ?xs =
      splice_insert (if after then int (length us) + 1 else int (length us)) a (us @ b # vs @ ws)"
    for after
    by (simp add: move_remove1 ib r del: indexOf.simps)
  have "splice_insert (int (length us)) a (us @ b # vs @ ws) = us @ a # b # vs @ ws"
    by (simp add: splice_insert_nat)
  then show "move a b False ?xs = us @ a # b # vs @ ws" by (simp add: m)
  have "splice_insert (int (Suc (length us))) a (us @ b # vs @ ws) = us @ b # a # vs @ ws"
    by (subst splice_insert_nat) simp_all
  then show "move a b True ?xs = us @ b # a # vs @ ws" by (simp add: m add.commute)
qed

lemma move_from_before:
  assumes a: "a \<notin> set us" "a \<noteq> b" and b: "b \<notin> set us" "b \<notin> set vs"
  shows "move a b False (us @ a # vs @ b # ws) = us @ vs @ b # a # ws"
proof -
  let ?xs = "us @ a # vs @ b # ws"
  have "indexOf ((us @ a # vs) @ b # ws) b = int (length (us @ a # vs))"
    using a b by (intro indexOf_prefix) auto
  then have ib: "indexOf ?xs b = int (Suc (length us + length vs))" by simp
  have r: "remove1 a ?xs = us @ vs @ b # ws"
    using a by (simp add: remove1_append)
  have "move a b False ?xs = splice_insert (int (Suc (length us + length vs))) a (us @ vs @ b # ws)"
    by (simp add: move_remove1 ib r del: indexOf.simps of_nat_Suc)
  also have "\<dots> = take (Suc (length us + length vs)) (us @ vs @ b # ws) @
      a # drop (Suc (length us + length vs)) (us @ vs @ b # ws)"
    by (rule splice_insert_nat) simp
  also have "\<dots> = us @ vs @ b # a # ws" by simp
  finally show ?thesis .
qed

end
